theory Spec2Isabelle
  imports Main "HOL-Library.AList"
begin

section \<open>JavaScript values and built-ins used by the event store\<close>

text \<open>
  Payloads and headers are opaque JavaScript values. Only their truthiness matters to the
  code (\<^verbatim>\<open>event || null\<close>), so a value is one of the primitive kinds or a reference to
  some object. Numbers are the integers that a double holds exactly one by one, those of
  magnitude up to \<open>2\<^sup>5\<^sup>3 = 9007199254740992\<close>; fractions and NaN are not represented.
\<close>

datatype jsval = JUndefined | JNull | JBool bool | JNum int | JStr string | JObj nat

fun truthy :: "jsval \<Rightarrow> bool" where
  "truthy JUndefined = False"
| "truthy JNull = False"
| "truthy (JBool b) = b"
| "truthy (JNum n) = (n \<noteq> 0)"
| "truthy (JStr s) = (s \<noteq> [])"
| "truthy (JObj r) = True"

text \<open>\<^verbatim>\<open>a || b\<close>\<close>

definition js_or :: "jsval \<Rightarrow> jsval \<Rightarrow> jsval" where
  "js_or a b = (if truthy a then a else b)"

text \<open>
  A revision field holds a number or \<^verbatim>\<open>null\<close> (\<open>None\<close>). The relational operators and
  \<^verbatim>\<open>++\<close> convert their operands with ToNumber, which sends \<^verbatim>\<open>null\<close> to 0.
\<close>

definition toNumber :: "int option \<Rightarrow> int" where
  "toNumber v = (case v of None \<Rightarrow> 0 | Some n \<Rightarrow> n)"

text \<open>
  \<^verbatim>\<open>x++\<close> and \<^verbatim>\<open>x + 1\<close> on a number: the sum is rounded to a double, so adding 1 to
  \<open>2\<^sup>5\<^sup>3\<close> gives \<open>2\<^sup>5\<^sup>3\<close> again.
\<close>

definition increment :: "int \<Rightarrow> int" where
  "increment x = (if x < 9007199254740992 then x + 1 else x)"

text \<open>
  \<^verbatim>\<open>Array.prototype.slice(start, end)\<close>: a negative index counts from the end of the
  array, both indexes are clamped to the array, and a missing \<^verbatim>\<open>end\<close> (\<open>None\<close>) is the
  length.
\<close>

definition js_slice :: "'a list \<Rightarrow> int \<Rightarrow> int option \<Rightarrow> 'a list" where
  "js_slice xs start stop =
     (let len = int (length xs);
          k = (if start < 0 then max (len + start) 0 else min start len);
          final = (case stop of
                     None \<Rightarrow> len
                   | Some e \<Rightarrow> (if e < 0 then max (len + e) 0 else min e len))
      in take (nat (final - k)) (drop (nat k) xs))"

text \<open>
  A property key is a string: a \<^verbatim>\<open>null\<close> stream id used as a key of
  \<^verbatim>\<open>this.store\<close> is the key \<^verbatim>\<open>"null"\<close>.
\<close>

definition key_of :: "string option \<Rightarrow> string" where
  "key_of sid = (case sid of None \<Rightarrow> ''null'' | Some s \<Rightarrow> s)"

text \<open>
  The storage keeps its dictionaries in plain objects (\<^verbatim>\<open>this.store = {}\<close>) and reads
  them with \<^verbatim>\<open>this.store[key]\<close>, which also finds what every object inherits from
  \<^verbatim>\<open>Object.prototype\<close>. The table lists those names with the \<^verbatim>\<open>length\<close> of the value found
  under each: the parameter count of the function, or \<open>None\<close> for \<^verbatim>\<open>__proto__\<close>, which is
  the prototype object itself and has no length.
\<close>

definition object_prototype :: "(string \<times> nat option) list" where
  "object_prototype =
     [(''constructor'', Some 1), (''toString'', Some 0), (''toLocaleString'', Some 0),
      (''valueOf'', Some 0), (''hasOwnProperty'', Some 1), (''isPrototypeOf'', Some 1),
      (''propertyIsEnumerable'', Some 1), (''__defineGetter__'', Some 2),
      (''__defineSetter__'', Some 2), (''__lookupGetter__'', Some 1),
      (''__lookupSetter__'', Some 1), (''__proto__'', None)]"

definition inherited :: "string \<Rightarrow> bool" where
  "inherited k = (map_of object_prototype k \<noteq> None)"

text \<open>
  What \<^verbatim>\<open>dict[k]\<close> finds in a dictionary held as an association list of the object's own
  properties: the own value, else an inherited value (a function or the prototype, always
  truthy and never an array), else \<^verbatim>\<open>undefined\<close>.
\<close>

datatype 'a slot = Missing | Inherited | Own 'a

definition property :: "(string \<times> 'a) list \<Rightarrow> string \<Rightarrow> 'a slot" where
  "property d k =
     (case map_of d k of
        Some v \<Rightarrow> Own v
      | None \<Rightarrow> (if inherited k then Inherited else Missing))"

section \<open>Data model\<close>

text \<open>
  Event objects are shared: the same object sits in an EventStream, in the storage's log
  and in the dispatcher's queue, and \<^verbatim>\<open>setEventToDispatched\<close> and \<^verbatim>\<open>commit\<close>
  write to it in place. Events therefore live in a heap, a list of objects indexed by
  their address, and every array of events is a list of addresses.
\<close>

type_synonym addr = nat

record event =
  streamId :: "string option"
  streamRevision :: "int option"
  commitId :: "string option"
  commitSequence :: "int option"
  commitStamp :: "int option"
  header :: jsval
  dispatched :: bool
  payload :: jsval

text \<open>\<^verbatim>\<open>var Event = function(streamId, event)\<close>\<close>

definition Event :: "string \<Rightarrow> jsval \<Rightarrow> event" where
  "Event sid ev =
     \<lparr> streamId = (if sid \<noteq> [] then Some sid else None),
       streamRevision = None,
       commitId = None,
       commitSequence = None,
       commitStamp = None,
       header = JNull,
       dispatched = False,
       payload = js_or ev JNull \<rparr>"

record snapshot =
  snap_id :: "string option"
  snap_streamId :: string
  revision :: int
  data :: jsval

text \<open>\<^verbatim>\<open>var Snapshot = function(id, streamId, revision, data)\<close>\<close>

definition Snapshot :: "string option \<Rightarrow> string \<Rightarrow> int \<Rightarrow> jsval \<Rightarrow> snapshot" where
  "Snapshot i sid r d = \<lparr> snap_id = i, snap_streamId = sid, revision = r, data = d \<rparr>"

text \<open>
  What \<^verbatim>\<open>getSnapshot\<close> hands to its callback: the empty object \<^verbatim>\<open>{}\<close>, the value
  \<^verbatim>\<open>undefined\<close> (the last element of an empty array), or a stored snapshot.
\<close>

datatype snap = EmptyObject | Undefined | Snap snapshot

record eventstream =
  es_streamId :: string
  events :: "addr list"
  uncommittedEvents :: "addr list"
  lastRevision :: int

text \<open>\<^verbatim>\<open>var EventStream = function(store, streamId, events)\<close>\<close>

definition EventStream :: "string \<Rightarrow> addr list \<Rightarrow> eventstream" where
  "EventStream sid evs =
     \<lparr> es_streamId = sid, events = evs, uncommittedEvents = [], lastRevision = - 1 \<rparr>"

datatype error = ConfigurationError | TypeError | BackendError string

text \<open>A call of a callback: \<^verbatim>\<open>callback(err)\<close> or \<^verbatim>\<open>callback(null, value)\<close>.\<close>

datatype 'a reply = Err error | Ok 'a

text \<open>
  How a call that takes a callback ends: it throws, it returns without having called the
  callback, or it calls the callback and returns.
\<close>

datatype 'a outcome = Throws error | NoCallback | Callback 'a

text \<open>
  The mutable world: the heap of event objects, the two dictionaries of the in-memory
  storage and the queue of the dispatcher, absent until \<^verbatim>\<open>start()\<close> has created the
  dispatcher. A dictionary is the association list of the object's own properties in
  insertion order, the order in which \<^verbatim>\<open>for ... in\<close> visits keys that are not array
  indexes; \<open>property\<close> reads it as the code does. Stream ids are strings.
\<close>

record state =
  heap :: "event list"
  store :: "(string \<times> addr list) list"
  snapshots :: "(string \<times> snapshot list) list"
  dispatcher :: "addr list option"

section \<open>The in-memory storage\<close>

text \<open>
  \<^verbatim>\<open>Storage.prototype.addEvents\<close>. The batch is \<open>None\<close> when the argument is missing.
  The callback receives \<^verbatim>\<open>null\<close> (\<open>Callback None\<close>). Under an inherited name
  \<^verbatim>\<open>this.store[k]\<close> is truthy and has no \<^verbatim>\<open>concat\<close>, so the call throws a TypeError
  before anything is stored.
\<close>

definition addEvents :: "addr list option \<Rightarrow> state \<Rightarrow> error option outcome \<times> state" where
  "addEvents evs st =
     (case evs of
        None \<Rightarrow> (Callback None, st)
      | Some [] \<Rightarrow> (Callback None, st)
      | Some (a # as) \<Rightarrow>
          (let k = key_of (streamId (heap st ! a));
               st1 = (if property (store st) k = Missing
                      then st\<lparr>store := AList.update k [] (store st)\<rparr> else st)
           in (case property (store st1) k of
                 Own old \<Rightarrow>
                   (Callback None, st1\<lparr>store := AList.update k (old @ (a # as)) (store st1)\<rparr>)
               | _ \<Rightarrow> (Throws TypeError, st1))))"

text \<open>
  \<^verbatim>\<open>Storage.prototype.addSnapshot\<close>. An inherited value has no \<^verbatim>\<open>push\<close>: the call
  throws.
\<close>

definition addSnapshot :: "snapshot \<Rightarrow> state \<Rightarrow> error option outcome \<times> state" where
  "addSnapshot s st =
     (let k = snap_streamId s;
          st1 = (if property (snapshots st) k = Missing
                 then st\<lparr>snapshots := AList.update k [] (snapshots st)\<rparr> else st)
      in (case property (snapshots st1) k of
            Own old \<Rightarrow>
              (Callback None, st1\<lparr>snapshots := AList.update k (old @ [s]) (snapshots st1)\<rparr>)
          | _ \<Rightarrow> (Throws TypeError, st1)))"

text \<open>
  \<^verbatim>\<open>Storage.prototype.getEvents\<close> with all four arguments; the three-argument call is
  the call with \<open>maxRev = -1\<close>. The callback receives \<^verbatim>\<open>null\<close> and the list. An inherited
  value has no \<^verbatim>\<open>slice\<close>: the call throws.
\<close>

definition getEvents :: "string \<Rightarrow> int \<Rightarrow> int \<Rightarrow> state \<Rightarrow> addr list outcome" where
  "getEvents sid minRev maxRev st =
     (case property (store st) sid of
        Missing \<Rightarrow> Callback []
      | Inherited \<Rightarrow> Throws TypeError
      | Own xs \<Rightarrow>
          Callback (if maxRev = - 1 then js_slice xs minRev None
                    else js_slice xs minRev (Some maxRev)))"

text \<open>
  The loop of \<^verbatim>\<open>getSnapshot\<close>, \<^verbatim>\<open>for (var i = snaps.length - 1; i >= 0; i--)\<close>: the
  second argument is \<open>i + 1\<close>. \<open>None\<close> is the loop running off its end.
\<close>

fun getSnapshot_loop :: "snapshot list \<Rightarrow> nat \<Rightarrow> int \<Rightarrow> snapshot option" where
  "getSnapshot_loop snaps 0 maxRev = None"
| "getSnapshot_loop snaps (Suc i) maxRev =
     (if revision (snaps ! i) \<le> maxRev then Some (snaps ! i)
      else getSnapshot_loop snaps i maxRev)"

text \<open>
  \<^verbatim>\<open>Storage.prototype.getSnapshot\<close>. Under an inherited name \<^verbatim>\<open>snaps\<close> is a function or
  the prototype, and none of its indexes holds anything: with \<open>maxRev = -1\<close> the callback
  receives \<^verbatim>\<open>undefined\<close>; otherwise the loop starts at \<^verbatim>\<open>snaps.length - 1\<close> and throws on
  reading \<^verbatim>\<open>snaps[i].revision\<close> when that length is at least 1, and does not run at all
  when it is 0 or missing.
\<close>

definition getSnapshot :: "string \<Rightarrow> int \<Rightarrow> state \<Rightarrow> snap outcome" where
  "getSnapshot sid maxRev st =
     (case property (snapshots st) sid of
        Missing \<Rightarrow> Callback EmptyObject
      | Own snaps \<Rightarrow>
          (if maxRev = - 1
           then (if snaps = [] then Callback Undefined else Callback (Snap (last snaps)))
           else (case getSnapshot_loop snaps (length snaps) maxRev of
                   None \<Rightarrow> NoCallback
                 | Some s \<Rightarrow> Callback (Snap s)))
      | Inherited \<Rightarrow>
          (if maxRev = - 1 then Callback Undefined
           else (case map_of object_prototype sid of
                   Some (Some (Suc n)) \<Rightarrow> Throws TypeError
                 | _ \<Rightarrow> NoCallback)))"

text \<open>\<^verbatim>\<open>Storage.prototype.getUndispatchedEvents\<close>\<close>

definition getUndispatchedEvents :: "state \<Rightarrow> addr list" where
  "getUndispatchedEvents st =
     filter (\<lambda>a. dispatched (heap st ! a) = False) (concat (map snd (store st)))"

text \<open>\<^verbatim>\<open>Storage.prototype.setEventToDispatched\<close>\<close>

definition setEventToDispatched :: "addr \<Rightarrow> state \<Rightarrow> state" where
  "setEventToDispatched a st =
     st\<lparr>heap := (heap st)[a := (heap st ! a)\<lparr>dispatched := True\<rparr>]\<rparr>"

text \<open>
  The log of a stream as the storage holds it: the array stored under the key, or no
  events when the storage has stored nothing under it.
\<close>

definition stream_log :: "state \<Rightarrow> string \<Rightarrow> addr list" where
  "stream_log st k = (case map_of (store st) k of None \<Rightarrow> [] | Some xs \<Rightarrow> xs)"

text \<open>
  The calls of the storage that change it, and a sequence of them run in order; a call
  that throws leaves the state as it is. The reads (\<^verbatim>\<open>getEvents\<close>, \<^verbatim>\<open>getSnapshot\<close>,
  \<^verbatim>\<open>getUndispatchedEvents\<close>, \<^verbatim>\<open>getId\<close>) do not change the state.
\<close>

datatype storage_call =
    AddEvents "addr list option"
  | AddSnapshot snapshot
  | SetEventToDispatched addr

fun storage_step :: "storage_call \<Rightarrow> state \<Rightarrow> state" where
  "storage_step (AddEvents evs) st = snd (addEvents evs st)"
| "storage_step (AddSnapshot s) st = snd (addSnapshot s st)"
| "storage_step (SetEventToDispatched a) st = setEventToDispatched a st"

fun storage_run :: "storage_call list \<Rightarrow> state \<Rightarrow> state" where
  "storage_run [] st = st"
| "storage_run (c # cs) st = storage_run cs (storage_step c st)"

section \<open>The storage bound to a Store\<close>

text \<open>
  \<^verbatim>\<open>use(module)\<close> binds any module with the operations of a storage, so the Store is
  modelled over the operations it calls. Each operation ends before the Store goes on:
  it throws, returns without an answer, or has called its callback with an error or a
  value.
\<close>

record storage =
  op_getId :: "string reply"
  op_addEvents :: "addr list \<Rightarrow> state \<Rightarrow> error option outcome \<times> state"
  op_getEvents :: "string \<Rightarrow> int \<Rightarrow> int \<Rightarrow> state \<Rightarrow> addr list reply outcome"
  op_getSnapshot :: "string \<Rightarrow> int \<Rightarrow> state \<Rightarrow> snap reply outcome"

text \<open>
  The in-memory storage as such a module. \<^verbatim>\<open>getId\<close> answers \<^verbatim>\<open>uuid().toString()\<close>;
  the argument \<open>i\<close> is that string.
\<close>

definition inMemory :: "string \<Rightarrow> storage" where
  "inMemory i =
     \<lparr> op_getId = Ok i,
       op_addEvents = (\<lambda>evs st. addEvents (Some evs) st),
       op_getEvents = (\<lambda>sid lo hi st. map_outcome Ok (getEvents sid lo hi st)),
       op_getSnapshot = (\<lambda>sid hi st. map_outcome Ok (getSnapshot sid hi st)) \<rparr>"

text \<open>
  A storage that rejects every append with the error \<open>e\<close> and stores nothing, and
  otherwise behaves as the in-memory storage: a backend whose write fails.
\<close>

definition rejecting :: "error \<Rightarrow> string \<Rightarrow> storage" where
  "rejecting e i = (inMemory i)\<lparr> op_addEvents := (\<lambda>evs st. (Callback (Some e), st)) \<rparr>"

section \<open>The dispatcher\<close>

text \<open>
  Modelled from the spec: \<^verbatim>\<open>eventDispatcher.js\<close> is not among the sources. The spec
  describes \<^verbatim>\<open>addUndispatchedEvents(batch)\<close> as the enqueue entry point, "appended in
  order" to the in-memory FIFO queue of pending events.
\<close>

definition addUndispatchedEvents :: "addr list \<Rightarrow> addr list \<Rightarrow> addr list" where
  "addUndispatchedEvents batch q = q @ batch"

section \<open>EventStream\<close>

text \<open>The loop of \<^verbatim>\<open>EventStream.prototype.currentRevision\<close> over \<^verbatim>\<open>this.events\<close>.\<close>

fun currentRevision_loop :: "event list \<Rightarrow> addr list \<Rightarrow> int option \<Rightarrow> int option" where
  "currentRevision_loop h [] r = r"
| "currentRevision_loop h (a # as) r =
     currentRevision_loop h as
       (if toNumber (streamRevision (h ! a)) > toNumber r then streamRevision (h ! a) else r)"

definition currentRevision :: "event list \<Rightarrow> eventstream \<Rightarrow> int option" where
  "currentRevision h es = currentRevision_loop h (events es) (Some (lastRevision es))"

text \<open>
  \<^verbatim>\<open>EventStream.prototype.addEvent\<close>: the new Event object takes the next free address
  of the heap.
\<close>

definition addEvent :: "jsval \<Rightarrow> eventstream \<Rightarrow> state \<Rightarrow> eventstream \<times> state" where
  "addEvent ev es st =
     (es\<lparr>uncommittedEvents := uncommittedEvents es @ [length (heap st)]\<rparr>,
      st\<lparr>heap := heap st @ [Event (es_streamId es) ev]\<rparr>)"

text \<open>The calls \<^verbatim>\<open>addEvent(p1); ...; addEvent(pn)\<close> on one EventStream, in order.\<close>

fun addEvent_list :: "jsval list \<Rightarrow> eventstream \<Rightarrow> state \<Rightarrow> eventstream \<times> state" where
  "addEvent_list [] es st = (es, st)"
| "addEvent_list (p # ps) es st =
     addEvent_list ps (fst (addEvent p es st)) (snd (addEvent p es st))"

section \<open>Store\<close>

text \<open>
  A started Store on a new in-memory storage: \<^verbatim>\<open>this.store = {}\<close>,
  \<^verbatim>\<open>this.snapshots = {}\<close>, no event object yet, and a dispatcher with an empty queue.
\<close>

definition initial :: state where
  "initial = \<lparr> heap = [], store = [], snapshots = [], dispatcher = Some [] \<rparr>"

text \<open>
  \<^verbatim>\<open>Store.prototype.getEventStream\<close> with all four arguments. An exception of the
  storage passes through.
\<close>

definition getEventStream ::
    "storage option \<Rightarrow> string \<Rightarrow> int \<Rightarrow> int \<Rightarrow> state \<Rightarrow> eventstream reply outcome" where
  "getEventStream stg sid revMin revMax st =
     (case stg of
        None \<Rightarrow> Callback (Err ConfigurationError)
      | Some s \<Rightarrow>
          (case op_getEvents s sid revMin revMax st of
             Throws e \<Rightarrow> Throws e
           | NoCallback \<Rightarrow> NoCallback
           | Callback (Err e) \<Rightarrow> Callback (Err e)
           | Callback (Ok evs) \<Rightarrow> Callback (Ok (EventStream sid evs))))"

text \<open>
  \<^verbatim>\<open>Store.prototype.getFromSnapshot\<close> with all three arguments. The result lists the
  calls of the callback in order, and the exception, if any, that ends the call. No
  callback is called when the storage throws or never answers. After a failed load of the
  events the step calls its continuation with the error and then once more with
  \<^verbatim>\<open>null\<close>, the event stream still undefined (\<open>None\<close>). \<open>first_revision\<close> is the local
  \<^verbatim>\<open>rev\<close>: 0, or \<^verbatim>\<open>snap.revision + 1\<close> when the snapshot has a revision.
\<close>

definition first_revision :: "snap \<Rightarrow> int" where
  "first_revision sn = (case sn of Snap sp \<Rightarrow> increment (revision sp) | _ \<Rightarrow> 0)"

definition getFromSnapshot ::
    "storage option \<Rightarrow> string \<Rightarrow> int \<Rightarrow> state
       \<Rightarrow> (snap \<times> eventstream option) reply list \<times> error option" where
  "getFromSnapshot stg sid maxRev st =
     (case stg of
        None \<Rightarrow> ([Err ConfigurationError], None)
      | Some s \<Rightarrow>
          (case op_getSnapshot s sid maxRev st of
             Throws e \<Rightarrow> ([], Some e)
           | NoCallback \<Rightarrow> ([], None)
           | Callback (Err e) \<Rightarrow> ([Err e], None)
           | Callback (Ok sn) \<Rightarrow>
               (let r = first_revision sn
                in (case getEventStream stg sid r maxRev st of
                      Throws e \<Rightarrow> ([], Some e)
                    | NoCallback \<Rightarrow> ([], None)
                    | Callback (Err e) \<Rightarrow> ([Err e, Ok (sn, None)], None)
                    | Callback (Ok stream) \<Rightarrow> ([Ok (sn, Some stream)], None)))))"

text \<open>
  The loop of \<^verbatim>\<open>commitEvents\<close> over \<^verbatim>\<open>eventstream.uncommittedEvents\<close>: \<open>i\<close> is the loop
  index, \<open>r\<close> the running \<^verbatim>\<open>currentRevision\<close>, and \<open>clock i\<close> the instant that
  \<^verbatim>\<open>new Date()\<close> reads in iteration \<open>i\<close>.
\<close>

fun commitEvents_loop ::
    "string \<Rightarrow> (nat \<Rightarrow> int) \<Rightarrow> addr list \<Rightarrow> nat \<Rightarrow> int \<Rightarrow> event list \<Rightarrow> event list" where
  "commitEvents_loop cid clock [] i r h = h"
| "commitEvents_loop cid clock (a # as) i r h =
     commitEvents_loop cid clock as (Suc i) (increment r)
       (h[a := (h ! a)\<lparr> commitId := Some cid,
                        commitSequence := Some (int i),
                        commitStamp := Some (clock i),
                        streamRevision := Some (increment r) \<rparr>])"

text \<open>
  \<^verbatim>\<open>Store.prototype.commit\<close>. \<open>replies\<close> lists, in order, the calls by which the steps
  of the waterfall report their outcome; its final function forwards an error as
  \<^verbatim>\<open>callback(err)\<close> and anything else as \<^verbatim>\<open>callback(null, eventstream)\<close>. \<open>thrown\<close> is
  the exception that ends the call, when the storage throws in \<^verbatim>\<open>addEvents\<close> or the
  Store has no dispatcher; \<open>stream\<close> and \<open>world\<close> are the EventStream and the state as the
  call leaves them. The two steps of the waterfall are taken as one: nothing else runs
  between \<^verbatim>\<open>getId\<close> and \<^verbatim>\<open>commitEvents\<close>. The storage answers \<^verbatim>\<open>addEvents\<close> before
  it returns, as the in-memory storage does, so an error of the append is passed on
  before the rest of \<^verbatim>\<open>commitEvents\<close> runs.
\<close>

record commit_result =
  replies :: "eventstream reply list"
  thrown :: "error option"
  stream :: eventstream
  world :: state

definition commit :: "storage option \<Rightarrow> (nat \<Rightarrow> int) \<Rightarrow> eventstream \<Rightarrow> state \<Rightarrow> commit_result" where
  "commit stg clock es st =
     (case stg of
        None \<Rightarrow> \<lparr> replies = [Err ConfigurationError], thrown = None, stream = es, world = st \<rparr>
      | Some s \<Rightarrow>
          (case op_getId s of
             Err e \<Rightarrow> \<lparr> replies = [Err e], thrown = None, stream = es, world = st \<rparr>
           | Ok cid \<Rightarrow>
               (let ue = uncommittedEvents es;
                    r = currentRevision (heap st) es;
                    st1 = st\<lparr>heap := commitEvents_loop cid clock ue 0 (toNumber r) (heap st)\<rparr>;
                    res = op_addEvents s ue st1;
                    st2 = snd res
                in (case fst res of
                      Throws e \<Rightarrow> \<lparr> replies = [], thrown = Some e, stream = es, world = st2 \<rparr>
                    | answered \<Rightarrow>
                        (let rs = (case answered of Callback (Some e) \<Rightarrow> [Err e] | _ \<Rightarrow> [])
                         in (case dispatcher st2 of
                               None \<Rightarrow>
                                 \<lparr> replies = rs, thrown = Some TypeError, stream = es,
                                   world = st2 \<rparr>
                             | Some q \<Rightarrow>
                                 (let st3 = st2\<lparr>dispatcher := Some (addUndispatchedEvents ue q)\<rparr>;
                                      es' = es\<lparr>events := events es @ ue, uncommittedEvents := []\<rparr>
                                  in \<lparr> replies = rs @ [Ok es'], thrown = None,
                                       stream = es', world = st3 \<rparr>)))))))"

section \<open>Properties of the in-memory storage\<close>

subsection \<open>Reading a dictionary\<close>

lemma property_not_inherited:
  "\<not> inherited k \<Longrightarrow>
     property d k = (case map_of d k of None \<Rightarrow> Missing | Some v \<Rightarrow> Own v)"
  by (simp add: property_def split: option.splits)

lemma not_inherited_A: "\<not> inherited ''A''"
  by (simp add: inherited_def object_prototype_def)

lemma property_A: "property d ''A'' = (case map_of d ''A'' of None \<Rightarrow> Missing | Some v \<Rightarrow> Own v)"
  by (rule property_not_inherited[OF not_inherited_A])




subsection \<open>Appending a batch\<close>

lemma addEvents_nonempty:
  assumes "\<not> inherited (key_of (streamId (heap st ! a)))"
  shows "addEvents (Some (a # as)) st =
     (Callback None, st\<lparr>store := AList.update (key_of (streamId (heap st ! a)))
                 (stream_log st (key_of (streamId (heap st ! a))) @ (a # as)) (store st)\<rparr>)"
  using assms
  by (cases "map_of (store st) (key_of (streamId (heap st ! a)))")
     (simp_all add: addEvents_def stream_log_def update_conv' Let_def property_not_inherited)

lemma addEvents_inherited:
  assumes "inherited (key_of (streamId (heap st ! a)))"
    and "map_of (store st) (key_of (streamId (heap st ! a))) = None"
  shows "addEvents (Some (a # as)) st = (Throws TypeError, st)"
  using assms by (simp add: addEvents_def property_def Let_def)

lemma addEvents_heap: "heap (snd (addEvents evs st)) = heap st"
  by (cases evs; cases "the evs")
     (auto simp add: addEvents_def Let_def split: slot.splits)

lemma addEvents_dispatcher: "dispatcher (snd (addEvents evs st)) = dispatcher st"
  by (cases evs; cases "the evs")
     (auto simp add: addEvents_def Let_def split: slot.splits)


text \<open>
  Under a stream id that is not an inherited name, a non-empty batch whose events all
  carry that id is reported as stored and appended in its order to the log kept under the
  id, and nothing else changes; an empty or missing batch changes nothing.
\<close>

lemma addEvents_appends:
  assumes "evs \<noteq> []" and "list_all (\<lambda>b. streamId (heap st ! b) = sid) evs"
    and "\<not> inherited (key_of sid)"
  shows "fst (addEvents (Some evs) st) = Callback None
       \<and> stream_log (snd (addEvents (Some evs) st)) (key_of sid) = stream_log st (key_of sid) @ evs
       \<and> (\<forall>k. k \<noteq> key_of sid \<longrightarrow>
            stream_log (snd (addEvents (Some evs) st)) k = stream_log st k)
       \<and> heap (snd (addEvents (Some evs) st)) = heap st
       \<and> snapshots (snd (addEvents (Some evs) st)) = snapshots st
       \<and> dispatcher (snd (addEvents (Some evs) st)) = dispatcher st"
proof -
  from assms obtain a as where evs: "evs = a # as" and sid: "streamId (heap st ! a) = sid"
    by (cases evs) auto
  from assms(3) sid have "\<not> inherited (key_of (streamId (heap st ! a)))" by simp
  from addEvents_nonempty[OF this, of as] show ?thesis
    unfolding evs sid
    by (simp add: stream_log_def update_conv')
qed

lemma addEvents_empty:
  "addEvents (Some []) st = (Callback None, st) \<and> addEvents None st = (Callback None, st)"
  by (simp add: addEvents_def)


text \<open>
  Claim C9. A batch of two events that share the stream id \<^verbatim>\<open>constructor\<close> is added to
  an empty storage. The claim expects the batch to be appended to the log of that stream
  and the call to succeed. Under that key \<^verbatim>\<open>this.store[k]\<close> finds the function every
  object inherits, so the log is not created, \<^verbatim>\<open>concat\<close> is not a function of what was
  found, and \<^verbatim>\<open>addEvents\<close> throws a TypeError: the callback is not called and nothing is
  stored.
\<close>

theorem addEvents_inherited_id_throws:
  "addEvents (Some [0, 1])
     \<lparr> heap = [Event ''constructor'' (JStr ''p1''), Event ''constructor'' (JStr ''p2'')],
       store = [], snapshots = [], dispatcher = None \<rparr>
   = (Throws TypeError,
      \<lparr> heap = [Event ''constructor'' (JStr ''p1''), Event ''constructor'' (JStr ''p2'')],
        store = [], snapshots = [], dispatcher = None \<rparr>)"
  by (simp add: addEvents_def Event_def key_of_def property_def inherited_def
      object_prototype_def Let_def)


text \<open>
  Under a first stream id that is not an inherited name, nothing compares the stream ids
  inside a batch: an event \<open>b\<close> of another stream is appended with the rest to the log of
  the first event's stream, and the log of the stream of \<open>b\<close> stays as it was.
\<close>

lemma addEvents_ignores_other_ids:
  assumes "b \<in> set (a # as)"
    and "key_of (streamId (heap st ! b)) \<noteq> key_of (streamId (heap st ! a))"
    and "\<not> inherited (key_of (streamId (heap st ! a)))"
  shows "fst (addEvents (Some (a # as)) st) = Callback None
       \<and> stream_log (snd (addEvents (Some (a # as)) st)) (key_of (streamId (heap st ! a)))
           = stream_log st (key_of (streamId (heap st ! a))) @ (a # as)
       \<and> b \<in> set (stream_log (snd (addEvents (Some (a # as)) st)) (key_of (streamId (heap st ! a))))
       \<and> stream_log (snd (addEvents (Some (a # as)) st)) (key_of (streamId (heap st ! b)))
           = stream_log st (key_of (streamId (heap st ! b)))"
  using assms(1,2) unfolding addEvents_nonempty[OF assms(3)]
  by (auto simp add: stream_log_def update_conv')


text \<open>
  Claim C10. A batch whose first event belongs to the stream \<^verbatim>\<open>toString\<close> and whose
  second event belongs to the stream \<open>A\<close> is added to an empty storage. The claim expects
  the call to report success and the whole batch to be appended under the first event's
  stream id. The call throws a TypeError instead, for the same reason as in claim C9, and
  nothing is stored.
\<close>

theorem addEvents_mixed_batch_throws:
  "addEvents (Some [0, 1])
     \<lparr> heap = [Event ''toString'' (JStr ''p1''), Event ''A'' (JStr ''p2'')],
       store = [], snapshots = [], dispatcher = None \<rparr>
   = (Throws TypeError,
      \<lparr> heap = [Event ''toString'' (JStr ''p1''), Event ''A'' (JStr ''p2'')],
        store = [], snapshots = [], dispatcher = None \<rparr>)"
  by (simp add: addEvents_def Event_def key_of_def property_def inherited_def
      object_prototype_def Let_def)


subsection \<open>Reading a range of a log\<close>

lemma filter_interval_upt:
  "filter (\<lambda>i. lo \<le> i \<and> i < hi) [0..<n] = [lo..<min hi n]"
proof (induction n)
  case 0
  then show ?case by simp
next
  case (Suc n)
  show ?case
  proof (cases "lo \<le> n \<and> n < hi")
    case True
    then have "min hi (Suc n) = Suc n" and "min hi n = n" by simp_all
    with True Suc show ?thesis by simp
  next
    case False
    then have "[lo..<min hi (Suc n)] = [lo..<min hi n]"
      by (cases "n < hi") (simp_all add: min_def)
    with False Suc show ?thesis by auto
  qed
qed

lemma map_nth_interval:
  "hi \<le> length xs \<Longrightarrow> map ((!) xs) [lo..<hi] = take (hi - lo) (drop lo xs)"
  by (rule nth_equalityI) (auto simp add: min_def)

lemma positions_take_drop:
  "map ((!) xs) (filter (\<lambda>i. lo \<le> i \<and> i < hi) [0..<length xs])
     = take (min hi (length xs) - lo) (drop lo xs)"
  by (simp add: filter_interval_upt map_nth_interval)

lemma positions_int:
  assumes "0 \<le> lo" and "0 \<le> hi"
  shows "map ((!) xs) (filter (\<lambda>i. lo \<le> int i \<and> int i < hi) [0..<length xs])
       = take (min (nat hi) (length xs) - nat lo) (drop (nat lo) xs)"
proof -
  have "(\<lambda>i. lo \<le> int i \<and> int i < hi) = (\<lambda>i. nat lo \<le> i \<and> i < nat hi)"
    using assms by (auto simp add: fun_eq_iff)
  then show ?thesis
    by (simp only: positions_take_drop)
qed


text \<open>The first position and the end position that \<^verbatim>\<open>slice\<close> takes.\<close>

lemma js_slice_positions:
  "js_slice xs start stop
     = map ((!) xs)
         (filter (\<lambda>i. (if start < 0 then max (int (length xs) + start) 0 else start) \<le> int i
                     \<and> int i < (case stop of
                                  None \<Rightarrow> int (length xs)
                                | Some e \<Rightarrow> (if e < 0 then max (int (length xs) + e) 0 else e)))
            [0..<length xs])"
proof -
  let ?n = "int (length xs)"
  let ?lo = "if start < 0 then max (?n + start) 0 else start"
  let ?hi = "case stop of None \<Rightarrow> ?n | Some e \<Rightarrow> (if e < 0 then max (?n + e) 0 else e)"
  have lo: "0 \<le> ?lo" by simp
  have hi: "0 \<le> ?hi" by (simp split: option.splits)
  have "js_slice xs start stop = take (min (nat ?hi) (length xs) - nat ?lo) (drop (nat ?lo) xs)"
    by (cases stop) (auto simp add: js_slice_def Let_def min_def max_def nat_diff_distrib')
  then show ?thesis
    using positions_int[OF lo hi, of xs] by simp
qed

lemma js_slice_all: "js_slice xs 0 None = xs"
  by (simp add: js_slice_def)

lemma getEvents_own:
  assumes "\<not> inherited sid"
  shows "getEvents sid minRev maxRev st
       = Callback (js_slice (stream_log st sid) minRev (if maxRev = - 1 then None else Some maxRev))"
  using assms
  by (simp add: getEvents_def stream_log_def property_not_inherited js_slice_def
      split: option.splits)

lemma getEvents_whole_log:
  "\<not> inherited sid \<Longrightarrow> getEvents sid 0 (- 1) st = Callback (stream_log st sid)"
  by (simp add: getEvents_own js_slice_all)


text \<open>
  Claim C6, as the code has it. For a stream id that is not an inherited name,
  \<^verbatim>\<open>getEvents\<close> answers the events of the stream's log at the zero-based positions \<open>i\<close>
  from a first position up to, and without, an end position, in log order. For
  \<open>minRev \<ge> 0\<close> the first position is \<open>minRev\<close>; a negative \<open>minRev\<close> counts from the end of
  the log (\<open>length + minRev\<close>, at least 0). For \<open>maxRev = -1\<close> the end is the end of the
  log, for \<open>maxRev \<ge> 0\<close> it is \<open>maxRev\<close>, and any other negative \<open>maxRev\<close> counts from the end
  of the log as well. So for \<open>minRev \<ge> 0\<close> and \<open>maxRev \<ge> -1\<close> the answer is what the claim
  says: the positions \<open>minRev \<le> i < maxRev\<close>, or all from \<open>minRev\<close> on when \<open>maxRev = -1\<close>. For
  a stream id without a log the answer is the empty list.
\<close>

theorem getEvents_positional:
  assumes "\<not> inherited sid"
  shows "getEvents sid minRev maxRev st =
           Callback (map ((!) (stream_log st sid))
             (filter (\<lambda>i. (if minRev < 0 then max (int (length (stream_log st sid)) + minRev) 0
                           else minRev) \<le> int i
                        \<and> (maxRev = - 1
                           \<or> int i < (if maxRev < 0
                                       then max (int (length (stream_log st sid)) + maxRev) 0
                                       else maxRev)))
                [0..<length (stream_log st sid)]))
       \<and> (0 \<le> minRev \<and> - 1 \<le> maxRev \<longrightarrow>
            getEvents sid minRev maxRev st =
              Callback (map ((!) (stream_log st sid))
                (filter (\<lambda>i. minRev \<le> int i \<and> (maxRev = - 1 \<or> int i < maxRev))
                   [0..<length (stream_log st sid)])))
       \<and> (map_of (store st) sid = None \<longrightarrow> getEvents sid minRev maxRev st = Callback [])"
proof -
  let ?log = "stream_log st sid"
  let ?n = "int (length ?log)"
  let ?lo = "if minRev < 0 then max (?n + minRev) 0 else minRev"
  let ?hi = "if maxRev < 0 then max (?n + maxRev) 0 else maxRev"
  have first: "getEvents sid minRev maxRev st =
      Callback (map ((!) ?log)
        (filter (\<lambda>i. ?lo \<le> int i \<and> (maxRev = - 1 \<or> int i < ?hi)) [0..<length ?log]))"
  proof (cases "maxRev = - 1")
    case True
    have "filter (\<lambda>i. ?lo \<le> int i \<and> int i < ?n) [0..<length ?log]
        = filter (\<lambda>i. ?lo \<le> int i) [0..<length ?log]"
      by (intro filter_cong) auto
    with True show ?thesis
      by (simp add: getEvents_own[OF assms] js_slice_positions[of ?log minRev None])
  next
    case False
    then show ?thesis
      by (simp add: getEvents_own[OF assms] js_slice_positions[of ?log minRev "Some maxRev"])
  qed
  have second: "getEvents sid minRev maxRev st =
      Callback (map ((!) ?log)
        (filter (\<lambda>i. minRev \<le> int i \<and> (maxRev = - 1 \<or> int i < maxRev)) [0..<length ?log]))"
    if "0 \<le> minRev" and "- 1 \<le> maxRev"
  proof -
    have "maxRev = - 1 \<or> 0 \<le> maxRev" using that(2) by arith
    then have "(\<lambda>i. ?lo \<le> int i \<and> (maxRev = - 1 \<or> int i < ?hi))
             = (\<lambda>i. minRev \<le> int i \<and> (maxRev = - 1 \<or> int i < maxRev))"
      using that(1) by (auto simp add: fun_eq_iff)
    with first show ?thesis by simp
  qed
  have third: "getEvents sid minRev maxRev st = Callback []" if "map_of (store st) sid = None"
    using that assms by (simp add: getEvents_def property_not_inherited)
  from first second third show ?thesis by blast
qed

theorem getEvents_positional_witness:
  "\<not> inherited ''A'' \<and> \<not> inherited ''B''
   \<and> getEvents ''A'' 1 3
        \<lparr> heap = [], store = [(''A'', [10, 11, 12, 13])], snapshots = [], dispatcher = None \<rparr>
       = Callback [11, 12]
   \<and> getEvents ''A'' (- 3) (- 1)
        \<lparr> heap = [], store = [(''A'', [10, 11, 12, 13])], snapshots = [], dispatcher = None \<rparr>
       = Callback [11, 12, 13]
   \<and> getEvents ''B'' 1 3
        \<lparr> heap = [], store = [(''A'', [10, 11, 12, 13])], snapshots = [], dispatcher = None \<rparr>
       = Callback []"
proof -
  have a: "\<not> inherited ''A''" and b: "\<not> inherited ''B''"
    by (simp_all add: inherited_def object_prototype_def)
  show ?thesis
    using a b
      getEvents_positional [OF a, of 1 3
        "\<lparr> heap = [], store = [(''A'', [10, 11, 12, 13])], snapshots = [], dispatcher = None \<rparr>"]
      getEvents_positional [OF a, of "- 3" "- 1"
        "\<lparr> heap = [], store = [(''A'', [10, 11, 12, 13])], snapshots = [], dispatcher = None \<rparr>"]
      getEvents_positional [OF b, of 1 3
        "\<lparr> heap = [], store = [(''A'', [10, 11, 12, 13])], snapshots = [], dispatcher = None \<rparr>"]
    by (simp add: stream_log_def upt_rec)
qed


text \<open>
  The claim as stated covers every stream id, \<open>minRev\<close> and \<open>maxRev\<close>. On a log of four
  events: no position \<open>i\<close> has \<open>0 \<le> i < -2\<close>, yet for \<open>minRev = 0\<close> and \<open>maxRev = -2\<close> the
  answer is the log without its last two events; the positions \<open>-1 \<le> i < 3\<close> are 0, 1 and
  2, yet for \<open>minRev = -1\<close> and \<open>maxRev = 3\<close> the answer is empty, the start being the last
  position. And the stream \<^verbatim>\<open>constructor\<close> has no stored events, yet reading it does not
  answer the empty list but throws a TypeError.
\<close>

theorem getEvents_counts_from_end:
  "getEvents ''A'' 0 (- 2)
        \<lparr> heap = [], store = [(''A'', [10, 11, 12, 13])], snapshots = [], dispatcher = None \<rparr>
       = Callback [10, 11]
   \<and> getEvents ''A'' (- 1) 3
        \<lparr> heap = [], store = [(''A'', [10, 11, 12, 13])], snapshots = [], dispatcher = None \<rparr>
       = Callback []
   \<and> getEvents ''constructor'' 0 (- 1)
        \<lparr> heap = [], store = [(''A'', [10, 11, 12, 13])], snapshots = [], dispatcher = None \<rparr>
       = Throws TypeError"
  by (simp add: getEvents_def property_def js_slice_def inherited_def object_prototype_def)


subsection \<open>Looking a snapshot up\<close>

lemma getSnapshot_loop_None_iff:
  "getSnapshot_loop snaps n maxRev = None \<longleftrightarrow> (\<forall>i<n. maxRev < revision (snaps ! i))"
  by (induction n) (auto simp add: less_Suc_eq)

lemma getSnapshot_loop_Some:
  "getSnapshot_loop snaps n maxRev = Some s \<Longrightarrow>
     \<exists>i<n. s = snaps ! i \<and> revision s \<le> maxRev
       \<and> (\<forall>j<n. i < j \<longrightarrow> maxRev < revision (snaps ! j))"
proof (induction n)
  case 0
  then show ?case by simp
next
  case (Suc n)
  show ?case
  proof (cases "revision (snaps ! n) \<le> maxRev")
    case True
    with Suc.prems have "s = snaps ! n" by simp
    with True show ?thesis by (intro exI[of _ n]) auto
  next
    case False
    with Suc obtain i where "i < n" "s = snaps ! i" "revision s \<le> maxRev"
      "\<forall>j<n. i < j \<longrightarrow> maxRev < revision (snaps ! j)" by auto
    with False show ?thesis by (intro exI[of _ i]) (auto simp add: less_Suc_eq)
  qed
qed


text \<open>
  Where a snapshot qualifies, the answer is the last stored one with a revision of at
  most \<open>maxRev\<close>; where the stream has snapshots and none qualifies, the callback is never
  called.
\<close>

lemma getSnapshot_latest_qualifying:
  assumes "map_of (snapshots st) sid = Some snaps" and "maxRev \<noteq> - 1"
    and "getSnapshot sid maxRev st = Callback sn"
  shows "\<exists>i<length snaps. sn = Snap (snaps ! i) \<and> revision (snaps ! i) \<le> maxRev
           \<and> (\<forall>j<length snaps. i < j \<longrightarrow> maxRev < revision (snaps ! j))"
  using assms getSnapshot_loop_Some[of snaps "length snaps" maxRev]
  by (auto simp add: getSnapshot_def property_def split: option.splits)

lemma getSnapshot_silent:
  assumes "map_of (snapshots st) sid = Some snaps" and "maxRev \<noteq> - 1"
    and "\<forall>i<length snaps. maxRev < revision (snaps ! i)"
  shows "getSnapshot sid maxRev st = NoCallback"
  using assms getSnapshot_loop_None_iff[of snaps "length snaps" maxRev]
  by (simp add: getSnapshot_def property_def)


text \<open>
  Claim C5. The stream \<open>A\<close> has one snapshot, of revision 5, and the caller asks for the
  latest snapshot up to revision 3. No snapshot qualifies; the claim expects the absent
  marker, and \<^verbatim>\<open>getSnapshot\<close> returns without calling its callback.
\<close>

theorem getSnapshot_none_qualifying:
  "getSnapshot ''A'' 3
     \<lparr> heap = [], store = [],
       snapshots = [(''A'', [Snapshot (Some ''s1'') ''A'' 5 JNull])],
       dispatcher = None \<rparr> = NoCallback"
  by (simp add: getSnapshot_def Snapshot_def property_def)


subsection \<open>Marking an event as dispatched\<close>

lemma addSnapshot_heap: "heap (snd (addSnapshot s st)) = heap st"
  by (auto simp add: addSnapshot_def Let_def split: slot.splits)

lemma storage_step_dispatched:
  assumes "E < length (heap st)" and "dispatched (heap st ! E)"
  shows "E < length (heap (storage_step c st)) \<and> dispatched (heap (storage_step c st) ! E)"
proof (cases c)
  case (AddEvents evs)
  with assms show ?thesis by (simp add: addEvents_heap)
next
  case (AddSnapshot s)
  with assms show ?thesis by (simp add: addSnapshot_heap)
next
  case (SetEventToDispatched a)
  with assms show ?thesis
    by (cases "a = E") (simp_all add: setEventToDispatched_def)
qed


lemma storage_run_dispatched:
  "E < length (heap st) \<Longrightarrow> dispatched (heap st ! E) \<Longrightarrow>
     E < length (heap (storage_run cs st)) \<and> dispatched (heap (storage_run cs st) ! E)"
proof (induction cs arbitrary: st)
  case Nil
  then show ?case by simp
next
  case (Cons c cs)
  from storage_step_dispatched[OF Cons.prems, of c] Cons.IH show ?case by simp
qed

text \<open>
  Claim C8. Once \<^verbatim>\<open>setEventToDispatched\<close> has marked the event object \<open>E\<close>, no later
  \<^verbatim>\<open>getUndispatchedEvents\<close> lists \<open>E\<close>, whatever calls \<open>cs\<close> the storage serves in
  between; the call right after the marking lists what was listed before, less \<open>E\<close>; and
  at any later time every stored event whose flag is still false is listed.
\<close>

theorem setEventToDispatched_visible:
  assumes "E < length (heap st)"
  shows "E \<notin> set (getUndispatchedEvents (storage_run cs (setEventToDispatched E st)))
       \<and> getUndispatchedEvents (setEventToDispatched E st)
           = filter (\<lambda>a. a \<noteq> E) (getUndispatchedEvents st)
       \<and> set (getUndispatchedEvents (storage_run cs (setEventToDispatched E st)))
           = {a \<in> set (concat (map snd (store (storage_run cs (setEventToDispatched E st))))).
                \<not> dispatched (heap (storage_run cs (setEventToDispatched E st)) ! a)}"
proof -
  let ?st = "setEventToDispatched E st"
  have "E < length (heap ?st)" and "dispatched (heap ?st ! E)"
    using assms by (simp_all add: setEventToDispatched_def)
  then have "dispatched (heap (storage_run cs ?st) ! E)"
    using storage_run_dispatched by blast
  then have a: "E \<notin> set (getUndispatchedEvents (storage_run cs ?st))"
    by (simp add: getUndispatchedEvents_def)
  have "\<And>a. dispatched (heap ?st ! a) = False \<longleftrightarrow> dispatched (heap st ! a) = False \<and> a \<noteq> E"
    using assms by (simp add: setEventToDispatched_def nth_list_update)
  then have b: "getUndispatchedEvents ?st = filter (\<lambda>a. a \<noteq> E) (getUndispatchedEvents st)"
    by (simp add: getUndispatchedEvents_def setEventToDispatched_def conj_commute)
  have c: "set (getUndispatchedEvents (storage_run cs ?st))
           = {a \<in> set (concat (map snd (store (storage_run cs ?st)))).
                \<not> dispatched (heap (storage_run cs ?st) ! a)}"
    by (simp add: getUndispatchedEvents_def)
  from a b c show ?thesis by simp
qed

theorem setEventToDispatched_visible_witness:
  "0 < length [Event ''A'' JNull, Event ''A'' JNull, Event ''A'' JNull]
   \<and> 0 \<notin> set (getUndispatchedEvents
        (storage_run [AddEvents (Some [2]), SetEventToDispatched 1]
          (setEventToDispatched 0
            \<lparr> heap = [Event ''A'' JNull, Event ''A'' JNull, Event ''A'' JNull],
              store = [(''A'', [0, 1])], snapshots = [], dispatcher = None \<rparr>)))
   \<and> getUndispatchedEvents
        (setEventToDispatched 0
          \<lparr> heap = [Event ''A'' JNull, Event ''A'' JNull, Event ''A'' JNull],
            store = [(''A'', [0, 1])], snapshots = [], dispatcher = None \<rparr>) = [1]"
  using setEventToDispatched_visible [of 0
      "\<lparr> heap = [Event ''A'' JNull, Event ''A'' JNull, Event ''A'' JNull],
         store = [(''A'', [0, 1])], snapshots = [], dispatcher = None \<rparr>"
      "[AddEvents (Some [2]), SetEventToDispatched 1]"]
  by (simp add: getUndispatchedEvents_def setEventToDispatched_def Event_def)

section \<open>Properties of the commit protocol\<close>

subsection \<open>The loops of commit\<close>

lemma commitEvents_loop_length [simp]:
  "length (commitEvents_loop cid clock as i r h) = length h"
  by (induction as arbitrary: i r h) simp_all

lemma commitEvents_loop_other:
  "a \<notin> set as \<Longrightarrow> commitEvents_loop cid clock as i r h ! a = h ! a"
  by (induction as arbitrary: i r h) auto

lemma commitEvents_loop_nth:
  assumes "distinct as" and "\<forall>a\<in>set as. a < length h" and "j < length as"
  shows "commitEvents_loop cid clock as i r h ! (as ! j)
       = (h ! (as ! j))\<lparr> commitId := Some cid,
                          commitSequence := Some (int (i + j)),
                          commitStamp := Some (clock (i + j)),
                          streamRevision := Some ((increment ^^ Suc j) r) \<rparr>"
  using assms
proof (induction as arbitrary: i r h j)
  case Nil
  then show ?case by simp
next
  case (Cons a as)
  show ?case
  proof (cases j)
    case 0
    with Cons.prems show ?thesis
      by (simp add: commitEvents_loop_other)
  next
    case (Suc j')
    from Cons.prems Suc have ne: "as ! j' \<noteq> a" by auto
    let ?h = "h[a := (h ! a)\<lparr> commitId := Some cid, commitSequence := Some (int i),
                  commitStamp := Some (clock i), streamRevision := Some (increment r) \<rparr>]"
    from Cons.prems Suc
    have "commitEvents_loop cid clock as (Suc i) (increment r) ?h ! (as ! j')
        = (?h ! (as ! j'))\<lparr> commitId := Some cid,
                          commitSequence := Some (int (Suc i + j')),
                          commitStamp := Some (clock (Suc i + j')),
                          streamRevision := Some ((increment ^^ Suc j') (increment r)) \<rparr>"
      by (intro Cons.IH) auto
    with ne Suc show ?thesis
      by (simp add: add.commute add.left_commute funpow_swap1)
  qed
qed


text \<open>Below \<open>2\<^sup>5\<^sup>3\<close> the counter counts.\<close>

lemma increment_funpow:
  "r + int k \<le> 9007199254740992 \<Longrightarrow> (increment ^^ k) r = r + int k"
  by (induction k) (simp_all add: increment_def)

lemma toNumber_currentRevision_loop_fold:
  "toNumber (currentRevision_loop h as r)
     = fold max (map (\<lambda>a. toNumber (streamRevision (h ! a))) as) (toNumber r)"
  by (induction as arbitrary: r) (simp_all add: max_def)

lemma toNumber_currentRevision_loop:
  "toNumber (currentRevision_loop h as r)
     = Max (insert (toNumber r) ((\<lambda>a. toNumber (streamRevision (h ! a))) ` set as))"
proof -
  let ?f = "\<lambda>a. toNumber (streamRevision (h ! a))"
  have "Max (set (toNumber r # map ?f as)) = fold max (map ?f as) (toNumber r)"
    by (rule Max.set_eq_fold)
  then show ?thesis
    by (simp add: toNumber_currentRevision_loop_fold)
qed

lemma addEvent_list_shape:
  "addEvent_list ps es st =
     (es\<lparr>uncommittedEvents := uncommittedEvents es @ [length (heap st)..<length (heap st) + length ps]\<rparr>,
      st\<lparr>heap := heap st @ map (Event (es_streamId es)) ps\<rparr>)"
proof (induction ps arbitrary: es st)
  case Nil
  then show ?case by simp
next
  case (Cons p ps)
  have "[length (heap st)..<length (heap st) + length (p # ps)]
      = length (heap st) # [Suc (length (heap st))..<Suc (length (heap st)) + length ps]"
    using upt_conv_Cons[of "length (heap st)" "length (heap st) + Suc (length ps)"]
    by simp
  then show ?case
    by (simp add: Cons.IH addEvent_def)
qed

lemma commit_inMemory_heap:
  "heap (world (commit (Some (inMemory cid)) clock es st))
     = commitEvents_loop cid clock (uncommittedEvents es) 0
         (toNumber (currentRevision (heap st) es)) (heap st)"
  by (simp add: commit_def inMemory_def Let_def addEvents_heap
      split: option.splits outcome.splits)

lemma commit_inMemory_store:
  "store (world (commit (Some (inMemory cid)) clock es st))
     = store (snd (addEvents (Some (uncommittedEvents es))
         (st\<lparr>heap := commitEvents_loop cid clock (uncommittedEvents es) 0
                 (toNumber (currentRevision (heap st) es)) (heap st)\<rparr>)))"
  by (simp add: commit_def inMemory_def Let_def split: option.splits outcome.splits)

lemma commit_after_addEvent_list:
  assumes "j < length ps"
  shows "heap (world (commit (Some (inMemory cid)) clock
                 (fst (addEvent_list ps (EventStream sid evs) st0))
                 (snd (addEvent_list ps (EventStream sid evs) st0))))
           ! (length (heap st0) + j)
       = (Event sid (ps ! j))\<lparr>
            commitId := Some cid,
            commitSequence := Some (int j),
            commitStamp := Some (clock j),
            streamRevision := Some ((increment ^^ Suc j) (toNumber (currentRevision_loop
              (heap st0 @ map (Event sid) ps) evs (Some (- 1))))) \<rparr>"
proof -
  let ?n = "length (heap st0)"
  let ?ue = "[?n..<?n + length ps]"
  let ?h = "heap st0 @ map (Event sid) ps"
  let ?r = "toNumber (currentRevision_loop ?h evs (Some (- 1)))"
  have d: "distinct ?ue" by simp
  have b: "\<forall>a\<in>set ?ue. a < length ?h" by simp
  have l: "j < length ?ue" using assms by simp
  from commitEvents_loop_nth[OF d b l, of cid clock 0 ?r] assms
  have "commitEvents_loop cid clock ?ue 0 ?r ?h ! (?n + j)
      = (?h ! (?n + j))\<lparr> commitId := Some cid, commitSequence := Some (int j),
            commitStamp := Some (clock j),
            streamRevision := Some ((increment ^^ Suc j) ?r) \<rparr>"
    by simp
  moreover have "?h ! (?n + j) = Event sid (ps ! j)"
    using assms by (simp add: nth_append)
  ultimately show ?thesis
    by (simp add: commit_inMemory_heap addEvent_list_shape EventStream_def currentRevision_def)
qed


subsection \<open>Identity of a commit\<close>

text \<open>
  Claim C1, as the code has it. A stream is loaded, \<open>n\<close> payloads are added with
  \<^verbatim>\<open>addEvent\<close> and the stream is committed. The \<open>j\<close>-th pending event, which wraps the
  \<open>j\<close>-th payload, then has \<open>commitSequence = j\<close> and the id answered by \<^verbatim>\<open>getId\<close> as its
  \<open>commitId\<close>; its \<open>commitStamp\<close> is the instant that \<^verbatim>\<open>new Date()\<close> read in its own
  iteration of the loop; and its \<open>dispatched\<close> flag is false, as the Event constructor set
  it (\<^verbatim>\<open>commit\<close> does not write the flag).
\<close>

theorem commit_seals_batch:
  assumes "j < length ps"
  shows "let r = addEvent_list ps (EventStream sid evs) st0;
             w = world (commit (Some (inMemory cid)) clock (fst r) (snd r));
             e = heap w ! (uncommittedEvents (fst r) ! j)
         in length (uncommittedEvents (fst r)) = length ps
          \<and> payload e = js_or (ps ! j) JNull
          \<and> commitSequence e = Some (int j)
          \<and> commitId e = Some cid
          \<and> commitStamp e = Some (clock j)
          \<and> dispatched e = False"
proof -
  have "uncommittedEvents (fst (addEvent_list ps (EventStream sid evs) st0))
      = [length (heap st0)..<length (heap st0) + length ps]"
    by (simp add: addEvent_list_shape EventStream_def)
  with assms commit_after_addEvent_list[OF assms, of cid clock sid evs st0]
  show ?thesis
    by (simp add: Let_def Event_def)
qed

theorem commit_seals_batch_witness:
  "(1 :: nat) < length [JStr ''p1'', JStr ''p2'']
   \<and> commitSequence (heap (world (commit (Some (inMemory ''c1'')) int
         (fst (addEvent_list [JStr ''p1'', JStr ''p2''] (EventStream ''A'' []) initial))
         (snd (addEvent_list [JStr ''p1'', JStr ''p2''] (EventStream ''A'' []) initial)))) ! 1)
       = Some 1
   \<and> commitId (heap (world (commit (Some (inMemory ''c1'')) int
         (fst (addEvent_list [JStr ''p1'', JStr ''p2''] (EventStream ''A'' []) initial))
         (snd (addEvent_list [JStr ''p1'', JStr ''p2''] (EventStream ''A'' []) initial)))) ! 1)
       = Some ''c1''"
  using commit_seals_batch [of 1 "[JStr ''p1'', JStr ''p2'']" "''A''" "[]" initial "''c1''" int]
  by (simp add: Let_def addEvent_def EventStream_def initial_def)


text \<open>
  The claim as stated asks for one \<open>commitStamp\<close> shared by the whole batch. Two events
  are committed while the clock advances by one millisecond between the two iterations of
  the loop: the first event is stamped 0 and the second 1.
\<close>

theorem commit_stamps_differ:
  "commitStamp (heap (world (commit (Some (inMemory ''c1'')) int
         (fst (addEvent_list [JStr ''p1'', JStr ''p2''] (EventStream ''A'' []) initial))
         (snd (addEvent_list [JStr ''p1'', JStr ''p2''] (EventStream ''A'' []) initial)))) ! 0)
     = Some 0
   \<and> commitStamp (heap (world (commit (Some (inMemory ''c1'')) int
         (fst (addEvent_list [JStr ''p1'', JStr ''p2''] (EventStream ''A'' []) initial))
         (snd (addEvent_list [JStr ''p1'', JStr ''p2''] (EventStream ''A'' []) initial)))) ! 1)
     = Some 1"
  by (simp add: commit_inMemory_heap addEvent_def EventStream_def initial_def
      Event_def currentRevision_def toNumber_def)


subsection \<open>Revisions\<close>

text \<open>
  Relative to the events that the EventStream holds, and below \<open>2\<^sup>5\<^sup>3\<close>, the \<open>j\<close>-th new
  event gets the revision \<open>j\<close> when no event is loaded and otherwise the greatest loaded
  revision plus \<open>1 + j\<close>. A commit on a stream loaded with its whole log, whose event at
  position \<open>i\<close> has revision \<open>i\<close>, appends to that log and keeps this shape.
\<close>

lemma commit_revisions_from_loaded:
  assumes "\<forall>a\<in>set evs. a < length (heap st0) \<and> (\<exists>r\<ge>0. streamRevision (heap st0 ! a) = Some r)"
    and "j < length ps"
    and "Max (insert (- 1) ((\<lambda>a. toNumber (streamRevision (heap st0 ! a))) ` set evs))
           + int (length ps) \<le> 9007199254740992"
  shows "let r = addEvent_list ps (EventStream sid evs) st0;
             w = world (commit (Some (inMemory cid)) clock (fst r) (snd r));
             v = streamRevision (heap w ! (uncommittedEvents (fst r) ! j))
         in (evs = [] \<longrightarrow> v = Some (int j))
          \<and> (evs \<noteq> [] \<longrightarrow>
               v = Some (Max ((\<lambda>a. toNumber (streamRevision (heap st0 ! a))) ` set evs) + 1 + int j))"
proof -
  let ?h = "heap st0 @ map (Event sid) ps"
  let ?f = "\<lambda>a. toNumber (streamRevision (heap st0 ! a))"
  let ?cur = "toNumber (currentRevision_loop ?h evs (Some (- 1)))"
  have ue: "uncommittedEvents (fst (addEvent_list ps (EventStream sid evs) st0))
      = [length (heap st0)..<length (heap st0) + length ps]"
    by (simp add: addEvent_list_shape EventStream_def)
  have "(\<lambda>a. toNumber (streamRevision (?h ! a))) ` set evs = ?f ` set evs"
    using assms(1) by (intro image_cong) (simp_all add: nth_append)
  moreover have "toNumber (Some (- 1)) = - 1"
    by (simp add: toNumber_def)
  ultimately have cur: "?cur = Max (insert (- 1) (?f ` set evs))"
    by (simp add: toNumber_currentRevision_loop)
  have "?cur + int (Suc j) \<le> 9007199254740992"
    using assms(2,3) cur by simp
  then have count: "(increment ^^ Suc j) ?cur = ?cur + int (Suc j)"
    by (rule increment_funpow)
  have empty: "?cur = - 1" if "evs = []"
    using cur that by simp
  have nonempty: "?cur = Max (?f ` set evs)" if "evs \<noteq> []"
  proof -
    have "\<forall>x\<in>?f ` set evs. 0 \<le> x"
      using assms(1) by (auto simp add: toNumber_def)
    moreover have "Max (?f ` set evs) \<in> ?f ` set evs"
      using that by (intro Max_in) simp_all
    ultimately have "0 \<le> Max (?f ` set evs)" by blast
    with that cur show ?thesis by simp
  qed
  from commit_after_addEvent_list[OF assms(2), of cid clock sid evs st0] ue assms(2) count
  have v: "streamRevision (heap (world (commit (Some (inMemory cid)) clock
                 (fst (addEvent_list ps (EventStream sid evs) st0))
                 (snd (addEvent_list ps (EventStream sid evs) st0))))
           ! (uncommittedEvents (fst (addEvent_list ps (EventStream sid evs) st0)) ! j))
        = Some (?cur + 1 + int j)"
    by simp
  show ?thesis
  proof (cases "evs = []")
    case True
    from v empty[OF True] True show ?thesis by (simp add: Let_def)
  next
    case False
    from v nonempty[OF False] False show ?thesis by (simp add: Let_def)
  qed
qed

lemma Max_upto_int: "Max (insert (- 1) (int ` {0..<m})) = int m - 1"
proof (cases m)
  case 0
  then show ?thesis by simp
next
  case (Suc m')
  have "Max (insert (- 1) (int ` {0..<Suc m'})) = int m'"
    by (rule Max_eqI) auto
  with Suc show ?thesis by simp
qed

lemma commit_keeps_log_dense:
  assumes sid: "sid \<noteq> []" "\<not> inherited sid"
    and alloc: "\<forall>a\<in>set (stream_log st0 sid). a < length (heap st0)"
    and dense: "\<forall>i<length (stream_log st0 sid).
                  streamRevision (heap st0 ! (stream_log st0 sid ! i)) = Some (int i)"
    and bound: "int (length (stream_log st0 sid)) + int (length ps) \<le> 9007199254740992"
  shows "let r = addEvent_list ps (EventStream sid (stream_log st0 sid)) st0;
             w = world (commit (Some (inMemory cid)) clock (fst r) (snd r))
         in stream_log w sid = stream_log st0 sid @ uncommittedEvents (fst r)
          \<and> (\<forall>i<length (stream_log w sid).
                streamRevision (heap w ! (stream_log w sid ! i)) = Some (int i))"
proof -
  let ?log = "stream_log st0 sid"
  let ?n = "length (heap st0)"
  let ?ue = "[?n..<?n + length ps]"
  let ?h = "heap st0 @ map (Event sid) ps"
  let ?r = "addEvent_list ps (EventStream sid ?log) st0"
  let ?c = "commit (Some (inMemory cid)) clock (fst ?r) (snd ?r)"
  have ue: "uncommittedEvents (fst ?r) = ?ue"
    by (simp add: addEvent_list_shape EventStream_def)
  have hst: "heap (snd ?r) = ?h" and sst: "store (snd ?r) = store st0"
    by (simp_all add: addEvent_list_shape EventStream_def)
  let ?f = "\<lambda>a. toNumber (streamRevision (?h ! a))"
  have "?f ` set ?log = int ` {0..<length ?log}"
  proof -
    have "?f (?log ! i) = int i" if "i < length ?log" for i
      using that alloc dense by (simp add: nth_append toNumber_def)
    then have "?f ` set ?log \<subseteq> int ` {0..<length ?log}"
      and "int ` {0..<length ?log} \<subseteq> ?f ` set ?log"
      by (force simp add: in_set_conv_nth)+
    then show ?thesis by blast
  qed
  then have cur: "toNumber (currentRevision_loop ?h ?log (Some (- 1))) = int (length ?log) - 1"
    using Max_upto_int[of "length ?log"]
    by (simp add: toNumber_currentRevision_loop) (simp add: toNumber_def)
  have new: "streamRevision (heap (world ?c) ! (?n + j)) = Some (int (length ?log + j))"
    if "j < length ps" for j
  proof -
    have "int (length ?log) - 1 + int (Suc j) \<le> 9007199254740992"
      using that bound by simp
    from increment_funpow[OF this]
      commit_after_addEvent_list[OF that, of cid clock sid ?log st0] cur
    show ?thesis by simp
  qed
  have old: "heap (world ?c) ! a = heap st0 ! a" if "a < ?n" for a
    using that
    by (simp add: commit_inMemory_heap ue hst commitEvents_loop_other nth_append)
  have log': "stream_log (world ?c) sid = ?log @ ?ue"
  proof (cases ps)
    case Nil
    then show ?thesis
      by (simp add: commit_inMemory_store stream_log_def addEvents_def EventStream_def)
  next
    case (Cons p ps')
    then have u: "?ue = ?n # [Suc ?n..<?n + length ps]"
      by (intro upt_conv_Cons) simp
    define X where "X = (snd ?r)\<lparr>heap := heap (world ?c)\<rparr>"
    have sx: "store (world ?c) = store (snd (addEvents (Some ?ue) X))"
      unfolding X_def by (simp add: commit_inMemory_store commit_inMemory_heap ue)
    have "streamId (heap (world ?c) ! (?n + 0)) = Some sid"
      using commit_after_addEvent_list[of 0 ps cid clock sid ?log st0] Cons sid(1)
      by (simp add: Event_def)
    then have kx: "key_of (streamId (heap X ! ?n)) = sid"
      by (simp add: X_def key_of_def)
    have stx: "store X = store st0"
      by (simp add: X_def sst)
    have lx: "stream_log X sid = ?log"
      by (simp only: stream_log_def stx)
    have "addEvents (Some (?n # [Suc ?n..<?n + length ps])) X
        = (Callback None,
           X\<lparr>store := AList.update sid (?log @ ?n # [Suc ?n..<?n + length ps]) (store X)\<rparr>)"
      using addEvents_nonempty[of X ?n "[Suc ?n..<?n + length ps]"] kx lx sid(2) by simp
    then have "store (world ?c) = AList.update sid (?log @ ?ue) (store st0)"
      using sx u stx by simp
    then show ?thesis
      by (simp add: stream_log_def update_conv')
  qed
  have "streamRevision (heap (world ?c) ! ((?log @ ?ue) ! i)) = Some (int i)"
    if "i < length (?log @ ?ue)" for i
  proof (cases "i < length ?log")
    case True
    with alloc have "?log ! i < ?n" by simp
    with True dense show ?thesis by (simp add: nth_append old)
  next
    case False
    with that have "i - length ?log < length ps" by simp
    from new[OF this] False that show ?thesis by (simp add: nth_append)
  qed
  with log' ue show ?thesis
    by (simp add: Let_def)
qed


text \<open>
  Claim C2. Three payloads are committed to the new stream \<open>A\<close>: its log holds the
  revisions 0, 1 and 2. A snapshot of revision 2 is stored, and the stream is loaded with
  \<^verbatim>\<open>getFromSnapshot\<close>: the snapshot is up to date, so the EventStream holds no event, and
  nothing records the snapshot's revision in it (\<^verbatim>\<open>lastRevision\<close> stays -1). A fourth
  payload is added and committed. The claim expects the revision 3; the event is
  committed with the revision 0, and the log of the stream now reads 0, 1, 2, 0.
\<close>

theorem commit_after_current_snapshot_restarts:
  "let r1 = addEvent_list [JStr ''p1'', JStr ''p2'', JStr ''p3''] (EventStream ''A'' []) initial;
       st1 = world (commit (Some (inMemory ''c1'')) int (fst r1) (snd r1));
       st2 = snd (addSnapshot (Snapshot (Some ''s1'') ''A'' 2 JNull) st1);
       r2 = addEvent (JStr ''p4'') (EventStream ''A'' []) st2;
       w = world (commit (Some (inMemory ''c2'')) int (fst r2) (snd r2))
   in stream_log st1 ''A'' = [0, 1, 2]
    \<and> streamRevision (heap st1 ! 0) = Some 0
    \<and> streamRevision (heap st1 ! 1) = Some 1
    \<and> streamRevision (heap st1 ! 2) = Some 2
    \<and> getFromSnapshot (Some (inMemory ''i'')) ''A'' (- 1) st2
        = ([Ok (Snap (Snapshot (Some ''s1'') ''A'' 2 JNull), Some (EventStream ''A'' []))], None)
    \<and> stream_log w ''A'' = [0, 1, 2, 3]
    \<and> streamRevision (heap w ! 2) = Some 2
    \<and> streamRevision (heap w ! 3) = Some 0"
proof -
  define e where "e p = \<lparr> streamId = Some ''A'', streamRevision = None, commitId = None,
      commitSequence = None, commitStamp = None, header = JNull, dispatched = False,
      payload = JStr p \<rparr>" for p
  define c where "c p i n = (e p)\<lparr> commitId := Some i, commitSequence := Some n,
      commitStamp := Some n, streamRevision := Some n \<rparr>" for p i n
  define s1 where "s1 = \<lparr> heap = [c ''p1'' ''c1'' 0, c ''p2'' ''c1'' 1, c ''p3'' ''c1'' 2],
      store = [(''A'', [0, 1, 2])], snapshots = [], dispatcher = Some [0, 1, 2] \<rparr>"
  define s2 where "s2 = s1\<lparr>snapshots := [(''A'', [Snapshot (Some ''s1'') ''A'' 2 JNull])]\<rparr>"
  have r1: "addEvent_list [JStr ''p1'', JStr ''p2'', JStr ''p3''] (EventStream ''A'' []) initial
      = (\<lparr> es_streamId = ''A'', events = [], uncommittedEvents = [0, 1, 2], lastRevision = - 1 \<rparr>,
         \<lparr> heap = [e ''p1'', e ''p2'', e ''p3''], store = [], snapshots = [],
           dispatcher = Some [] \<rparr>)"
    by (simp add: addEvent_def EventStream_def initial_def Event_def e_def js_or_def)
  have st1: "world (commit (Some (inMemory ''c1'')) int
        \<lparr> es_streamId = ''A'', events = [], uncommittedEvents = [0, 1, 2], lastRevision = - 1 \<rparr>
        \<lparr> heap = [e ''p1'', e ''p2'', e ''p3''], store = [], snapshots = [],
          dispatcher = Some [] \<rparr>) = s1"
    by (simp add: commit_def inMemory_def addEvents_def property_A e_def c_def s1_def
        currentRevision_def toNumber_def increment_def key_of_def Let_def
        addUndispatchedEvents_def)
  have st2: "snd (addSnapshot (Snapshot (Some ''s1'') ''A'' 2 JNull) s1) = s2"
    by (simp add: addSnapshot_def Snapshot_def property_A s1_def s2_def Let_def)
  have load: "getFromSnapshot (Some (inMemory ''i'')) ''A'' (- 1) s2
        = ([Ok (Snap (Snapshot (Some ''s1'') ''A'' 2 JNull), Some (EventStream ''A'' []))], None)"
    by (simp add: getFromSnapshot_def inMemory_def getSnapshot_def getEventStream_def
        getEvents_def property_A s1_def s2_def Snapshot_def first_revision_def increment_def
        js_slice_def Let_def)
  have r2: "addEvent (JStr ''p4'') (EventStream ''A'' []) s2
      = (\<lparr> es_streamId = ''A'', events = [], uncommittedEvents = [3], lastRevision = - 1 \<rparr>,
         s2\<lparr>heap := heap s2 @ [e ''p4'']\<rparr>)"
    by (simp add: addEvent_def EventStream_def Event_def e_def js_or_def s1_def s2_def)
  have w: "world (commit (Some (inMemory ''c2'')) int
        \<lparr> es_streamId = ''A'', events = [], uncommittedEvents = [3], lastRevision = - 1 \<rparr>
        (s2\<lparr>heap := heap s2 @ [e ''p4'']\<rparr>))
      = s2\<lparr> heap := heap s2 @ [c ''p4'' ''c2'' 0], store := [(''A'', [0, 1, 2, 3])],
             dispatcher := Some [0, 1, 2, 3] \<rparr>"
    by (simp add: commit_def inMemory_def addEvents_def property_A e_def c_def s1_def s2_def
        currentRevision_def toNumber_def increment_def key_of_def Let_def
        addUndispatchedEvents_def)
  show ?thesis
    unfolding Let_def r1 fst_conv snd_conv st1 st2 load r2 w
    by (simp add: stream_log_def s1_def s2_def c_def)
qed


subsection \<open>A commit whose append fails\<close>

lemma commit_rejected_append:
  assumes "dispatcher st = Some q"
  shows "replies (commit (Some (rejecting e cid)) clock es st)
           = [Err e, Ok (es\<lparr>events := events es @ uncommittedEvents es, uncommittedEvents := []\<rparr>)]
       \<and> stream (commit (Some (rejecting e cid)) clock es st)
           = es\<lparr>events := events es @ uncommittedEvents es, uncommittedEvents := []\<rparr>
       \<and> dispatcher (world (commit (Some (rejecting e cid)) clock es st))
           = Some (q @ uncommittedEvents es)
       \<and> store (world (commit (Some (rejecting e cid)) clock es st)) = store st"
  using assms
  by (simp add: commit_def rejecting_def inMemory_def Let_def addUndispatchedEvents_def)


text \<open>
  Claim C3. A stream with one pending event is committed on a storage whose
  \<^verbatim>\<open>addEvents\<close> fails. Before the commit the pending list is \<open>[0]\<close>, and the committed
  list and the dispatcher's queue are empty. The claim expects the error to be reported
  once and the three lists to stay as they were. \<^verbatim>\<open>commitEvents\<close> passes the error on
  and carries on: it puts the event on the dispatcher's queue, moves it from the pending
  to the committed list, and calls its continuation a second time, now without an error,
  although the storage holds nothing.
\<close>

theorem commit_failed_append:
  "uncommittedEvents (fst (addEvent (JStr ''p1'') (EventStream ''A'' []) initial)) = [0]
   \<and> events (fst (addEvent (JStr ''p1'') (EventStream ''A'' []) initial)) = []
   \<and> dispatcher (snd (addEvent (JStr ''p1'') (EventStream ''A'' []) initial)) = Some []
   \<and> replies (commit (Some (rejecting (BackendError ''write failed'') ''c1'')) int
        (fst (addEvent (JStr ''p1'') (EventStream ''A'' []) initial))
        (snd (addEvent (JStr ''p1'') (EventStream ''A'' []) initial)))
       = [Err (BackendError ''write failed''),
          Ok \<lparr> es_streamId = ''A'', events = [0], uncommittedEvents = [], lastRevision = - 1 \<rparr>]
   \<and> stream (commit (Some (rejecting (BackendError ''write failed'') ''c1'')) int
        (fst (addEvent (JStr ''p1'') (EventStream ''A'' []) initial))
        (snd (addEvent (JStr ''p1'') (EventStream ''A'' []) initial)))
       = \<lparr> es_streamId = ''A'', events = [0], uncommittedEvents = [], lastRevision = - 1 \<rparr>
   \<and> dispatcher (world (commit (Some (rejecting (BackendError ''write failed'') ''c1'')) int
        (fst (addEvent (JStr ''p1'') (EventStream ''A'' []) initial))
        (snd (addEvent (JStr ''p1'') (EventStream ''A'' []) initial))))
       = Some [0]
   \<and> store (world (commit (Some (rejecting (BackendError ''write failed'') ''c1'')) int
        (fst (addEvent (JStr ''p1'') (EventStream ''A'' []) initial))
        (snd (addEvent (JStr ''p1'') (EventStream ''A'' []) initial))))
       = []"
  by (simp add: commit_def rejecting_def inMemory_def addEvent_def EventStream_def initial_def
      Let_def addUndispatchedEvents_def)


subsection \<open>Round trip\<close>






section \<open>Loading from a snapshot\<close>

text \<open>
  When \<^verbatim>\<open>getSnapshot\<close> answers \<open>sn\<close> for a stream id that is not an inherited name,
  \<^verbatim>\<open>getFromSnapshot\<close> answers \<open>sn\<close> with the slice of the log from \<open>first_revision sn\<close> up
  to, and without, \<open>maxRev\<close>.
\<close>

lemma getFromSnapshot_inMemory:
  assumes "getSnapshot sid maxRev st = Callback sn" and "\<not> inherited sid"
  shows "getFromSnapshot (Some (inMemory i)) sid maxRev st
       = ([Ok (sn, Some (EventStream sid
             (js_slice (stream_log st sid) (first_revision sn)
                (if maxRev = - 1 then None else Some maxRev))))], None)"
  using assms
  by (simp add: getFromSnapshot_def getEventStream_def inMemory_def Let_def getEvents_own)


text \<open>
  Claim C4. The stream \<open>A\<close> holds the revisions 0, 1 and 2 and a snapshot of revision 0,
  and is loaded up to \<open>maxRev = 2\<close>. The claim expects the stream to cover the revisions 1
  and 2. The load starts after the snapshot, at position 1, and ends before position 2:
  the answer holds the event of revision 1 only. The snapshot lookup of the same call
  takes \<open>maxRev\<close> inclusive: asked up to revision 2, it answers a snapshot of revision 2.
\<close>

theorem getFromSnapshot_excludes_maxRev:
  "getFromSnapshot (Some (inMemory ''i'')) ''A'' 2
     \<lparr> heap = [(Event ''A'' (JStr ''p1''))\<lparr>streamRevision := Some 0\<rparr>,
               (Event ''A'' (JStr ''p2''))\<lparr>streamRevision := Some 1\<rparr>,
               (Event ''A'' (JStr ''p3''))\<lparr>streamRevision := Some 2\<rparr>],
       store = [(''A'', [0, 1, 2])],
       snapshots = [(''A'', [Snapshot (Some ''s1'') ''A'' 0 JNull])],
       dispatcher = Some [] \<rparr>
     = ([Ok (Snap (Snapshot (Some ''s1'') ''A'' 0 JNull), Some (EventStream ''A'' [1]))], None)
   \<and> streamRevision ([(Event ''A'' (JStr ''p1''))\<lparr>streamRevision := Some 0\<rparr>,
               (Event ''A'' (JStr ''p2''))\<lparr>streamRevision := Some 1\<rparr>,
               (Event ''A'' (JStr ''p3''))\<lparr>streamRevision := Some 2\<rparr>] ! 2) = Some 2
   \<and> getSnapshot ''A'' 2
     \<lparr> heap = [(Event ''A'' (JStr ''p1''))\<lparr>streamRevision := Some 0\<rparr>,
               (Event ''A'' (JStr ''p2''))\<lparr>streamRevision := Some 1\<rparr>,
               (Event ''A'' (JStr ''p3''))\<lparr>streamRevision := Some 2\<rparr>],
       store = [(''A'', [0, 1, 2])],
       snapshots = [(''A'', [Snapshot (Some ''s2'') ''A'' 2 JNull])],
       dispatcher = Some [] \<rparr>
     = Callback (Snap (Snapshot (Some ''s2'') ''A'' 2 JNull))"
  by (simp add: getFromSnapshot_def getEventStream_def inMemory_def getSnapshot_def Snapshot_def
      first_revision_def getEvents_def js_slice_def Let_def EventStream_def property_A
      increment_def)


end
